theory Spec2Isabelle
  imports Main "HOL-Library.AList" "HOL-Library.Word"
begin

section \<open>Signed media URL service: the token store and its request handlers\<close>

text \<open>
  A shallow embedding of \<^verbatim>\<open>server.js\<close>: the in-memory \<^verbatim>\<open>urlStore\<close>, the helpers
  \<^verbatim>\<open>generateToken\<close>, \<^verbatim>\<open>getExpiryTimestamp\<close>, \<^verbatim>\<open>isValidFilePath\<close>, \<^verbatim>\<open>isValidUserId\<close>
  and the handlers of \<^verbatim>\<open>/api/generate-signed-url\<close>, \<^verbatim>\<open>/api/validate-token\<close>,
  \<^verbatim>\<open>/api/stats\<close> and \<^verbatim>\<open>/media/*\<close>.

  Conventions.
  \<^item> A JavaScript string is a \<open>string\<close>; its characters are code units below 256. Every
    character the two patterns and \<^verbatim>\<open>parseInt\<close> accept is ASCII, so a code unit outside
    this range is rejected exactly as any other foreign character is.
  \<^item> A query parameter is a \<open>string option\<close>: \<open>None\<close> is \<^verbatim>\<open>undefined\<close>.
  \<^item> A JavaScript number that holds a time is an \<open>int\<close>; \<^verbatim>\<open>NaN\<close> is \<open>None\<close>.
  \<^item> Each \<^verbatim>\<open>Date.now()\<close> a handler reads is an argument of the handler, in milliseconds.
  \<^item> A handler takes the store and returns its response together with the new store.
\<close>

subsection \<open>Characters and case\<close>

text \<open>
  Characters are compared through their code units. On the ASCII letters \<open>toUpperCase\<close> and
  \<open>toLowerCase\<close> are JavaScript's; every other code unit is left alone, which is all the
  \<^verbatim>\<open>i\<close> flag does with it against a pattern of ASCII characters.
\<close>

definition inRange :: "char \<Rightarrow> char \<Rightarrow> nat \<Rightarrow> bool" where
  "inRange lo hi n \<longleftrightarrow> of_char lo \<le> n \<and> n \<le> of_char hi"

definition toUpperCase :: "nat \<Rightarrow> nat" where
  "toUpperCase n = (if inRange CHR ''a'' CHR ''z'' n then n - 32 else n)"

definition toLowerCase :: "nat \<Rightarrow> nat" where
  "toLowerCase n = (if inRange CHR ''A'' CHR ''Z'' n then n + 32 else n)"

subsection \<open>Regular expressions, as far as the two patterns of the source need them\<close>

text \<open>
  A pattern is a literal string, a character class given by its ranges, a sequence, an
  alternation, or a repetition \<open>{m,n}\<close> (\<open>+\<close> is \<open>{1,}\<close>, written \<open>Repeat r 1 None\<close>).
  \<open>rmatch\<close> is the backtracking matcher: it returns what is left of the input after every
  way of matching a prefix of it. The flag is the pattern's \<^verbatim>\<open>i\<close> flag; with it two
  characters agree when their canonical (upper-case) forms do.
\<close>

datatype regex =
    Str string
  | CharClass "(char \<times> char) list"
  | Seq regex regex
  | Alt "regex list"
  | Repeat regex nat "nat option"

definition canonicalize :: "bool \<Rightarrow> char \<Rightarrow> nat" where
  "canonicalize ignoreCase c = (if ignoreCase then toUpperCase (of_char c) else of_char c)"

definition inRanges :: "(char \<times> char) list \<Rightarrow> nat \<Rightarrow> bool" where
  "inRanges rs n \<longleftrightarrow> list_ex (\<lambda>(lo, hi). inRange lo hi n) rs"

definition classMatch :: "bool \<Rightarrow> (char \<times> char) list \<Rightarrow> char \<Rightarrow> bool" where
  "classMatch ignoreCase rs c \<longleftrightarrow>
     inRanges rs (of_char c) \<or>
     (ignoreCase \<and> (inRanges rs (toUpperCase (of_char c)) \<or> inRanges rs (toLowerCase (of_char c))))"

fun reps :: "(string \<Rightarrow> string list) \<Rightarrow> nat \<Rightarrow> string \<Rightarrow> string list" where
  "reps f 0 s = [s]"
| "reps f (Suc k) s = concat (map (reps f k) (f s))"

fun rmatch :: "bool \<Rightarrow> regex \<Rightarrow> string \<Rightarrow> string list" where
  "rmatch i (Str p) s =
     (if length p \<le> length s \<and> map (canonicalize i) (take (length p) s) = map (canonicalize i) p
      then [drop (length p) s] else [])"
| "rmatch i (CharClass rs) s =
     (case s of [] \<Rightarrow> [] | c # cs \<Rightarrow> if classMatch i rs c then [cs] else [])"
| "rmatch i (Seq a b) s = concat (map (rmatch i b) (rmatch i a s))"
| "rmatch i (Alt rs) s = concat (map (\<lambda>r. rmatch i r s) rs)"
| "rmatch i (Repeat r m mx) s =
     concat (map (\<lambda>k. reps (rmatch i r) k s)
       [m ..< Suc (case mx of None \<Rightarrow> m + length s | Some n \<Rightarrow> n)])"

text \<open>\<^verbatim>\<open>/^...$/.test(s)\<close>: some way of matching consumes the whole input.\<close>

definition regexTest :: "bool \<Rightarrow> regex \<Rightarrow> string \<Rightarrow> bool" where
  "regexTest i r s \<longleftrightarrow> [] \<in> set (rmatch i r s)"

subsection \<open>The validation helpers\<close>

text \<open>\<^verbatim>\<open>/^\/[a-zA-Z0-9\/\-_.]+\.(mp4|mp3|wav|avi|mov|pdf|jpg|jpeg|png)$/i\<close>\<close>

definition pathClass :: "(char \<times> char) list" where
  "pathClass = [(CHR ''a'', CHR ''z''), (CHR ''A'', CHR ''Z''), (CHR ''0'', CHR ''9''),
     (CHR ''/'', CHR ''/''), (CHR ''-'', CHR ''-''), (CHR ''_'', CHR ''_''), (CHR ''.'', CHR ''.'')]"

definition pathRegex :: regex where
  "pathRegex = Seq (Str ''/'') (Seq (Repeat (CharClass pathClass) 1 None)
     (Seq (Str ''.'')
       (Alt [Str ''mp4'', Str ''mp3'', Str ''wav'', Str ''avi'', Str ''mov'', Str ''pdf'',
             Str ''jpg'', Str ''jpeg'', Str ''png''])))"

definition isValidFilePath :: "string \<Rightarrow> bool" where
  "isValidFilePath filePath = regexTest True pathRegex filePath"

text \<open>\<^verbatim>\<open>/^[a-zA-Z0-9_]{3,50}$/\<close>\<close>

definition userIdClass :: "(char \<times> char) list" where
  "userIdClass = [(CHR ''a'', CHR ''z''), (CHR ''A'', CHR ''Z''), (CHR ''0'', CHR ''9''),
     (CHR ''_'', CHR ''_'')]"

definition userIdRegex :: regex where
  "userIdRegex = Repeat (CharClass userIdClass) 3 (Some 50)"

definition isValidUserId :: "string \<Rightarrow> bool" where
  "isValidUserId userId = regexTest False userIdRegex userId"

subsection \<open>Tokens and expiry\<close>

text \<open>
  \<^verbatim>\<open>crypto.randomBytes(32).toString('hex')\<close>. The entropy source is an argument: byte \<open>i\<close>
  of the buffer \<^verbatim>\<open>randomBytes(n)\<close> returns is \<open>src i\<close>.
\<close>

type_synonym entropy = "nat \<Rightarrow> 8 word"

definition randomBytes :: "nat \<Rightarrow> entropy \<Rightarrow> 8 word list" where
  "randomBytes n src = map src [0 ..< n]"

definition hexDigit :: "nat \<Rightarrow> char" where
  "hexDigit d = ''0123456789abcdef'' ! d"

definition byteToHex :: "8 word \<Rightarrow> string" where
  "byteToHex b = [hexDigit (unat b div 16), hexDigit (unat b mod 16)]"

definition toHex :: "8 word list \<Rightarrow> string" where
  "toHex bs = concat (map byteToHex bs)"

definition generateToken :: "entropy \<Rightarrow> string" where
  "generateToken src = toHex (randomBytes 32 src)"

text \<open>\<^verbatim>\<open>Math.floor(Date.now() / 1000) + (2 * 60)\<close>, with \<open>now\<close> the clock in milliseconds.\<close>

definition getExpiryTimestamp :: "int \<Rightarrow> int" where
  "getExpiryTimestamp now = now div 1000 + 2 * 60"

subsection \<open>Numbers and strings\<close>

text \<open>
  The template literal of the signed URL prints \<^verbatim>\<open>expires\<close> in decimal, as JavaScript
  prints every integer below \<open>10\<^sup>2\<^sup>1\<close>.
\<close>

definition digitChar :: "nat \<Rightarrow> char" where
  "digitChar d = ''0123456789'' ! d"

function decimalDigits :: "nat \<Rightarrow> string" where
  "decimalDigits n =
     (if n < 10 then [digitChar n] else decimalDigits (n div 10) @ [digitChar (n mod 10)])"
  by pat_completeness auto
termination
  by (relation "measure id") auto

declare decimalDigits.simps [simp del]

definition numberToString :: "int \<Rightarrow> string" where
  "numberToString n = (if n < 0 then CHR ''-'' # decimalDigits (nat (- n)) else decimalDigits (nat n))"

text \<open>
  \<^verbatim>\<open>parseInt(string)\<close> with no radix, after ECMAScript: leading white space is skipped, a
  sign is read, the prefix \<^verbatim>\<open>0x\<close> or \<^verbatim>\<open>0X\<close> selects radix 16 (otherwise 10), the longest
  run of digits of that radix is the value, and no digit at all is \<^verbatim>\<open>NaN\<close>. The result is
  the exact integer. JavaScript rounds it to a double, which changes no value of magnitude
  up to \<open>2\<^sup>5\<^sup>3\<close> and moves no value across a clock reading or across the bound of
  \<open>validTimeValue\<close> below, so every decision and every reported number of the handlers is the
  same.
\<close>

definition isWhiteSpace :: "char \<Rightarrow> bool" where
  "isWhiteSpace c \<longleftrightarrow> (of_char c :: nat) \<in> {9, 10, 11, 12, 13, 32, 160}"

definition digitValue :: "char \<Rightarrow> nat option" where
  "digitValue c =
     (let n = of_char c in
      if inRange CHR ''0'' CHR ''9'' n then Some (n - 48)
      else if inRange CHR ''a'' CHR ''z'' n then Some (n - 87)
      else if inRange CHR ''A'' CHR ''Z'' n then Some (n - 55)
      else None)"

definition isRadixDigit :: "nat \<Rightarrow> char \<Rightarrow> bool" where
  "isRadixDigit R c \<longleftrightarrow> (case digitValue c of None \<Rightarrow> False | Some d \<Rightarrow> d < R)"

definition digitsToNat :: "nat \<Rightarrow> string \<Rightarrow> nat" where
  "digitsToNat R Z = foldl (\<lambda>acc c. acc * R + (case digitValue c of None \<Rightarrow> 0 | Some d \<Rightarrow> d)) 0 Z"

definition parseInt :: "string \<Rightarrow> int option" where
  "parseInt str =
     (let S = dropWhile isWhiteSpace str;
          sign = (if take 1 S = ''-'' then - 1 else 1);
          S1 = (if take 1 S = ''+'' \<or> take 1 S = ''-'' then drop 1 S else S);
          hex = (take 2 S1 = ''0x'' \<or> take 2 S1 = ''0X'');
          R = (if hex then 16 else 10);
          S2 = (if hex then drop 2 S1 else S1);
          Z = takeWhile (isRadixDigit R) S2
      in if Z = [] then None else Some (sign * int (digitsToNat R Z)))"

text \<open>\<^verbatim>\<open>a > b\<close> on numbers: false when \<open>b\<close> is \<^verbatim>\<open>NaN\<close>.\<close>

definition jsGreater :: "int \<Rightarrow> int option \<Rightarrow> bool" where
  "jsGreater a b \<longleftrightarrow> (case b of None \<Rightarrow> False | Some n \<Rightarrow> a > n)"

text \<open>
  \<^verbatim>\<open>new Date(t).toISOString()\<close> throws a \<^verbatim>\<open>RangeError\<close> unless \<open>t\<close> is a time value: a
  number, not \<^verbatim>\<open>NaN\<close>, of magnitude at most \<open>8.64 \<times> 10\<^sup>1\<^sup>5\<close> milliseconds.
\<close>

definition validTimeValue :: "int \<Rightarrow> bool" where
  "validTimeValue ms \<longleftrightarrow> \<bar>ms\<bar> \<le> 8640000000000000"

text \<open>\<^verbatim>\<open>s.replace(pat, rep)\<close> with a string pattern replaces the first occurrence only.\<close>

fun replaceFirst :: "string \<Rightarrow> string \<Rightarrow> string \<Rightarrow> string" where
  "replaceFirst pat rep [] = (if pat = [] then rep else [])"
| "replaceFirst pat rep (c # cs) =
     (if take (length pat) (c # cs) = pat then rep @ drop (length pat) (c # cs)
      else c # replaceFirst pat rep cs)"

text \<open>\<^verbatim>\<open>!p\<close> on a query parameter holds for \<^verbatim>\<open>undefined\<close> and for the empty string.\<close>

definition truthy :: "string option \<Rightarrow> string option" where
  "truthy p = (case p of None \<Rightarrow> None | Some s \<Rightarrow> if s = [] then None else Some s)"

subsection \<open>The store\<close>

text \<open>
  \<^verbatim>\<open>urlStore\<close> is a JavaScript \<^verbatim>\<open>Map\<close>: the list of its entries in insertion order.
  \<^verbatim>\<open>set\<close> is \<open>AList.update\<close> (a present key keeps its place, a new key goes last),
  \<^verbatim>\<open>delete\<close> is \<open>AList.delete\<close>, \<^verbatim>\<open>get\<close> is \<open>map_of\<close>, \<^verbatim>\<open>size\<close> is \<open>length\<close>. The keys of a
  \<^verbatim>\<open>Map\<close> are distinct; \<open>storeInv\<close> says so.
\<close>

record tokenData =
  filePath :: string
  userId :: string
  expires :: int
  createdAt :: int

type_synonym urlStore = "(string \<times> tokenData) list"

definition storeInv :: "urlStore \<Rightarrow> bool" where
  "storeInv store \<longleftrightarrow> distinct (map fst store)"

text \<open>The clean-up loop of the generate handler, over the entries of the store.\<close>

definition cleanupExpired :: "int \<Rightarrow> urlStore \<Rightarrow> urlStore" where
  "cleanupExpired currentTime store =
     fold (\<lambda>(key, val) s. if expires val < currentTime then AList.delete key s else s) store store"

subsection \<open>\<^verbatim>\<open>GET /api/generate-signed-url\<close>\<close>

datatype generateResponse =
    GenerateError nat string
  | GenerateSuccess string string string int

text \<open>
  \<open>GenerateError status error\<close>; \<open>GenerateSuccess signedUrl filePath userId expiresAt\<close>.
  The handler reads the clock three times: in \<^verbatim>\<open>getExpiryTimestamp\<close>, for \<^verbatim>\<open>createdAt\<close> and
  before the clean-up.
\<close>

definition signedUrlOf :: "string \<Rightarrow> string \<Rightarrow> int \<Rightarrow> string \<Rightarrow> string" where
  "signedUrlOf fp token exps uid =
     ''https://candidate-001-powerofaum-module-sig-five.vercel.app/media'' @ fp @
     ''?token='' @ token @ ''&expires='' @ numberToString exps @ ''&userId='' @ uid"

definition generateSignedUrl ::
  "entropy \<Rightarrow> int \<Rightarrow> int \<Rightarrow> int \<Rightarrow> string option \<Rightarrow> string option \<Rightarrow> urlStore
     \<Rightarrow> generateResponse \<times> urlStore" where
  "generateSignedUrl src tExpiry tCreated tCleanup qFilePath qUserId store =
     (case truthy qFilePath of
        None \<Rightarrow> (GenerateError 400 ''Missing required parameter: filePath'', store)
      | Some fp \<Rightarrow>
     (case truthy qUserId of
        None \<Rightarrow> (GenerateError 400 ''Missing required parameter: userId'', store)
      | Some uid \<Rightarrow>
        if \<not> isValidFilePath fp then
          (GenerateError 400 ''Invalid filePath format. Must be a valid path to a media file.'',
           store)
        else if \<not> isValidUserId uid then
          (GenerateError 400
             ''Invalid userId format. Must be alphanumeric with underscores, 3-50 characters.'',
           store)
        else
          let token = generateToken src;
              exps = getExpiryTimestamp tExpiry;
              store1 = AList.update token
                \<lparr>filePath = fp, userId = uid, expires = exps, createdAt = tCreated\<rparr> store;
              store2 = cleanupExpired (tCleanup div 1000) store1
          in (GenerateSuccess (signedUrlOf fp token exps uid) fp uid exps, store2)))"

subsection \<open>\<^verbatim>\<open>GET /api/validate-token\<close>\<close>

datatype validateResponse =
    ValidateError nat string
  | TokenInvalid string
  | TokenValid string string int int

text \<open>\<open>TokenInvalid reason\<close>; \<open>TokenValid filePath userId expiresAt remainingTime\<close>.\<close>

definition validateToken :: "int \<Rightarrow> string option \<Rightarrow> urlStore \<Rightarrow> validateResponse \<times> urlStore" where
  "validateToken now qToken store =
     (case truthy qToken of
        None \<Rightarrow> (ValidateError 400 ''Missing token parameter'', store)
      | Some token \<Rightarrow>
          let currentTime = now div 1000 in
          (case map_of store token of
             None \<Rightarrow> (TokenInvalid ''Token not found'', store)
           | Some tokenData \<Rightarrow>
               if expires tokenData < currentTime
               then (TokenInvalid ''Token expired'', AList.delete token store)
               else (TokenValid (filePath tokenData) (userId tokenData) (expires tokenData)
                       (expires tokenData - currentTime), store)))"

subsection \<open>\<^verbatim>\<open>GET /api/stats\<close>\<close>

record statsResponse =
  totalTokensGenerated :: nat
  activeTokens :: nat

definition stats :: "int \<Rightarrow> urlStore \<Rightarrow> statsResponse" where
  "stats now store =
     (let currentTime = now div 1000;
          active = fold (\<lambda>(key, val) n. if expires val \<ge> currentTime then n + 1 else n) store 0
      in \<lparr>totalTokensGenerated = length store, activeTokens = active\<rparr>)"

subsection \<open>\<^verbatim>\<open>GET /media/*\<close>\<close>

datatype mediaResponse =
    MissingParameters
  | TokenNotFound
  | TokenExpired int
  | BindingMismatch
  | Granted string string int int
  | InternalError

text \<open>
  The responses with status 400, 401, 410 (\<open>TokenExpired expiryTime\<close>), 403, 200
  (\<open>Granted filePath userId remainingTime expiryTime\<close>) and 500. The last is the handler's
  \<^verbatim>\<open>catch\<close>: both the 410 and the 200 body print \<^verbatim>\<open>new Date(expiryTime * 1000).toISOString()\<close>,
  which throws when \<^verbatim>\<open>expiryTime\<close> is no time value; in the 410 branch the entry is deleted
  before that.
\<close>

definition statusCode :: "mediaResponse \<Rightarrow> nat" where
  "statusCode r = (case r of MissingParameters \<Rightarrow> 400 | TokenNotFound \<Rightarrow> 401
     | TokenExpired _ \<Rightarrow> 410 | BindingMismatch \<Rightarrow> 403 | Granted _ _ _ _ \<Rightarrow> 200
     | InternalError \<Rightarrow> 500)"

definition media ::
  "int \<Rightarrow> string \<Rightarrow> string option \<Rightarrow> string option \<Rightarrow> string option \<Rightarrow> urlStore
     \<Rightarrow> mediaResponse \<times> urlStore" where
  "media now reqPath qToken qExpires qUserId store =
     (let fp = replaceFirst ''/media'' [] reqPath in
      (case truthy qToken of None \<Rightarrow> (MissingParameters, store) | Some token \<Rightarrow>
      (case truthy qExpires of None \<Rightarrow> (MissingParameters, store) | Some exps \<Rightarrow>
      (case truthy qUserId of None \<Rightarrow> (MissingParameters, store) | Some uid \<Rightarrow>
      (case map_of store token of
         None \<Rightarrow> (TokenNotFound, store)
       | Some tokenData \<Rightarrow>
           let currentTime = now div 1000;
               expiryTime = parseInt exps
           in
           if jsGreater currentTime expiryTime then
             (let store' = AList.delete token store in
              (case expiryTime of
                 None \<Rightarrow> (InternalError, store')
               | Some e \<Rightarrow>
                   if validTimeValue (e * 1000) then (TokenExpired e, store')
                   else (InternalError, store')))
           else if filePath tokenData \<noteq> fp \<or> userId tokenData \<noteq> uid then
             (BindingMismatch, store)
           else
             (case expiryTime of
                None \<Rightarrow> (InternalError, store)
              | Some e \<Rightarrow>
                  if validTimeValue (e * 1000) then (Granted fp uid (e - currentTime) e, store)
                  else (InternalError, store)))))))"

section \<open>The shapes and constants of the specification\<close>

text \<open>
  The media-path shape in the specification's words: the resource begins with a path
  separator, holds only path-safe characters, and ends with a dot and one of the accepted
  extensions, compared without regard to case, after at least one character of a name.
\<close>

definition mediaExtensions :: "string list" where
  "mediaExtensions = [''mp4'', ''mp3'', ''wav'', ''avi'', ''mov'', ''pdf'', ''jpg'', ''jpeg'', ''png'']"

definition isAsciiLetter :: "char \<Rightarrow> bool" where
  "isAsciiLetter c \<longleftrightarrow> inRange CHR ''a'' CHR ''z'' (of_char c) \<or> inRange CHR ''A'' CHR ''Z'' (of_char c)"

definition isAsciiDigit :: "char \<Rightarrow> bool" where
  "isAsciiDigit c \<longleftrightarrow> inRange CHR ''0'' CHR ''9'' (of_char c)"

definition pathSafeChar :: "char \<Rightarrow> bool" where
  "pathSafeChar c \<longleftrightarrow> isAsciiLetter c \<or> isAsciiDigit c \<or> c \<in> set ''/-_.''"

definition mediaPathShape :: "string \<Rightarrow> bool" where
  "mediaPathShape s \<longleftrightarrow>
     take 1 s = ''/'' \<and> (\<forall>c \<in> set s. pathSafeChar c) \<and>
     (\<exists>ext \<in> set mediaExtensions. length ext + 3 \<le> length s \<and>
        map (\<lambda>c. toLowerCase (of_char c)) (drop (length s - (length ext + 1)) s) =
          map of_char (CHR ''.'' # ext))"

text \<open>The requester shape: \<^verbatim>\<open>[A-Za-z0-9_]{3,50}\<close>.\<close>

definition identifierChar :: "char \<Rightarrow> bool" where
  "identifierChar c \<longleftrightarrow> isAsciiLetter c \<or> isAsciiDigit c \<or> c = CHR ''_''"

definition requesterShape :: "string \<Rightarrow> bool" where
  "requesterShape s \<longleftrightarrow> 3 \<le> length s \<and> length s \<le> 50 \<and> (\<forall>c \<in> set s. identifierChar c)"

text \<open>A field of a request is missing when it is absent or empty.\<close>

definition missing :: "string option \<Rightarrow> bool" where
  "missing p \<longleftrightarrow> p = None \<or> p = Some []"

subsection \<open>A store with one entry\<close>

text \<open>
  The store after one mint into the empty store: the file \<^verbatim>\<open>/videos/intro.mp4\<close> for the user
  \<^verbatim>\<open>USER_001\<close>, at the clock reading \<open>1620000000000\<close>, with every byte drawn equal to 7
  (\<open>storeA_minted\<close> below). The concrete evaluations are made on it.
\<close>

abbreviation tokenA :: string where
  "tokenA \<equiv> ''0707070707070707070707070707070707070707070707070707070707070707''"

abbreviation entryA :: tokenData where
  "entryA \<equiv> \<lparr>filePath = ''/videos/intro.mp4'', userId = ''USER_001'', expires = 1620000120,
     createdAt = 1620000000000\<rparr>"

abbreviation storeA :: urlStore where
  "storeA \<equiv> [(tokenA, entryA)]"

section \<open>Properties\<close>

subsection \<open>Query parameters and the matcher\<close>

lemma truthy_Some: "truthy p = Some s \<longleftrightarrow> p = Some s \<and> s \<noteq> []"
  by (auto simp: truthy_def split: option.splits)

lemma truthy_None: "truthy p = None \<longleftrightarrow> p = None \<or> p = Some []"
  by (auto simp: truthy_def split: option.splits)

lemma reps_CharClass:
  "set (reps (rmatch i (CharClass rs)) k s) =
     (if k \<le> length s \<and> (\<forall>c \<in> set (take k s). classMatch i rs c) then {drop k s} else {})"
proof (induction k arbitrary: s)
  case 0
  show ?case by simp
next
  case (Suc k)
  show ?case
  proof (cases s)
    case Nil
    then show ?thesis by simp
  next
    case (Cons c cs)
    then show ?thesis using Suc [of cs] by simp
  qed
qed

lemma rmatch_Repeat_CharClass:
  "set (rmatch i (Repeat (CharClass rs) m mx) s) =
     {drop k s | k. m \<le> k \<and> k \<le> (case mx of None \<Rightarrow> m + length s | Some n \<Rightarrow> n)
        \<and> k \<le> length s \<and> (\<forall>c \<in> set (take k s). classMatch i rs c)}"
  by (auto simp: reps_CharClass split: if_splits)

lemma rmatch_Str:
  "r \<in> set (rmatch i (Str p) s) \<longleftrightarrow>
     (\<exists>x. s = x @ r \<and> map (canonicalize i) x = map (canonicalize i) p)"
proof
  assume "r \<in> set (rmatch i (Str p) s)"
  then have "length p \<le> length s" "map (canonicalize i) (take (length p) s) = map (canonicalize i) p"
    "r = drop (length p) s"
    by (auto split: if_splits)
  then have "s = take (length p) s @ r" by simp
  with \<open>map (canonicalize i) (take (length p) s) = map (canonicalize i) p\<close>
  show "\<exists>x. s = x @ r \<and> map (canonicalize i) x = map (canonicalize i) p" by blast
next
  assume "\<exists>x. s = x @ r \<and> map (canonicalize i) x = map (canonicalize i) p"
  then obtain x where x: "s = x @ r" "map (canonicalize i) x = map (canonicalize i) p" by blast
  from x(2) have "length x = length p" by (rule map_eq_imp_length_eq)
  with x show "r \<in> set (rmatch i (Str p) s)" by simp
qed

subsection \<open>The requester pattern is the requester shape\<close>

lemma char_eq_code: "c = d \<longleftrightarrow> (of_char c :: nat) = of_char d"
  by simp

lemma classMatch_userIdClass: "classMatch False userIdClass c \<longleftrightarrow> identifierChar c"
  unfolding classMatch_def userIdClass_def inRanges_def identifierChar_def isAsciiLetter_def
      isAsciiDigit_def inRange_def
  by (simp add: char_eq_code [of c] eq_iff del: of_char_eq_iff)

lemma isValidUserId_shape: "isValidUserId s \<longleftrightarrow> requesterShape s"
proof -
  have "isValidUserId s \<longleftrightarrow>
      (\<exists>k. 3 \<le> k \<and> k \<le> 50 \<and> k \<le> length s \<and> (\<forall>c \<in> set (take k s). identifierChar c) \<and> drop k s = [])"
    unfolding isValidUserId_def regexTest_def userIdRegex_def rmatch_Repeat_CharClass
    by (auto simp: classMatch_userIdClass)
  also have "\<dots> \<longleftrightarrow> requesterShape s"
    unfolding requesterShape_def
  proof
    assume "\<exists>k. 3 \<le> k \<and> k \<le> 50 \<and> k \<le> length s \<and> (\<forall>c \<in> set (take k s). identifierChar c) \<and> drop k s = []"
    then obtain k where k: "3 \<le> k" "k \<le> 50" "k \<le> length s" "\<forall>c \<in> set (take k s). identifierChar c"
      "drop k s = []" by blast
    from k(3,5) have "k = length s" by simp
    with k show "3 \<le> length s \<and> length s \<le> 50 \<and> (\<forall>c \<in> set s. identifierChar c)" by simp
  next
    assume "3 \<le> length s \<and> length s \<le> 50 \<and> (\<forall>c \<in> set s. identifierChar c)"
    then show "\<exists>k. 3 \<le> k \<and> k \<le> 50 \<and> k \<le> length s \<and> (\<forall>c \<in> set (take k s). identifierChar c) \<and> drop k s = []"
      by (intro exI [of _ "length s"]) simp
  qed
  finally show ?thesis .
qed

subsection \<open>The path pattern is the media-path shape\<close>

lemma inRanges_pathClass:
  "inRanges pathClass n \<longleftrightarrow>
     (97 \<le> n \<and> n \<le> 122) \<or> (65 \<le> n \<and> n \<le> 90) \<or> (48 \<le> n \<and> n \<le> 57) \<or> n = 47 \<or> n = 45 \<or> n = 95 \<or> n = 46"
  unfolding pathClass_def inRanges_def inRange_def by (simp add: eq_iff)

lemma pathSafeChar_code:
  "pathSafeChar c \<longleftrightarrow> inRanges pathClass (of_char c)"
  unfolding inRanges_pathClass pathSafeChar_def isAsciiLetter_def isAsciiDigit_def inRange_def
  by (simp add: char_eq_code [of c] del: of_char_eq_iff)

lemma inRanges_pathClass_case:
  "inRanges pathClass (toUpperCase n) \<or> inRanges pathClass (toLowerCase n) \<Longrightarrow> inRanges pathClass n"
  unfolding inRanges_pathClass toUpperCase_def toLowerCase_def inRange_def
  by (simp split: if_splits) arith

lemma classMatch_pathClass: "classMatch True pathClass c \<longleftrightarrow> pathSafeChar c"
  unfolding classMatch_def pathSafeChar_code using inRanges_pathClass_case by blast

lemma toUpperCase_eq_lower:
  "\<not> (65 \<le> m \<and> m \<le> 90) \<Longrightarrow> toUpperCase n = toUpperCase m \<longleftrightarrow> toLowerCase n = m"
  unfolding toUpperCase_def toLowerCase_def inRange_def
  by (simp split: if_splits) arith


lemma toUpperCase_eq_nonletter:
  "\<not> (65 \<le> m \<and> m \<le> 90) \<Longrightarrow> \<not> (97 \<le> m \<and> m \<le> 122) \<Longrightarrow> toUpperCase n = toUpperCase m \<longleftrightarrow> n = m"
  unfolding toUpperCase_def inRange_def
  by (simp split: if_splits) arith

lemma rmatch_Str_slash: "r \<in> set (rmatch True (Str ''/'') s) \<longleftrightarrow> s = CHR ''/'' # r"
  by (cases s) (auto simp: canonicalize_def toUpperCase_eq_nonletter [of 47, simplified] char_eq_code [of _ "CHR ''/''"] simp del: of_char_eq_iff)

lemma rmatch_Str_dot: "r \<in> set (rmatch True (Str ''.'') s) \<longleftrightarrow> s = CHR ''.'' # r"
  by (cases s) (auto simp: canonicalize_def toUpperCase_eq_nonletter [of 46, simplified] char_eq_code [of _ "CHR ''.''"] simp del: of_char_eq_iff)

lemma map_canonicalize_eq_lower:
  assumes "\<forall>e \<in> set p. \<not> (65 \<le> (of_char e :: nat) \<and> (of_char e :: nat) \<le> 90)"
  shows "map (canonicalize True) x = map (canonicalize True) p \<longleftrightarrow>
         map (\<lambda>c. toLowerCase (of_char c)) x = map of_char p"
  using assms
proof (induction x arbitrary: p)
  case Nil
  then show ?case by auto
next
  case (Cons c x)
  show ?case
  proof (cases p)
    case Nil
    then show ?thesis by simp
  next
    case (Cons e p')
    with Cons.prems Cons.IH [of p'] show ?thesis
      by (simp add: canonicalize_def toUpperCase_eq_lower)
  qed
qed

lemma mediaExtensions_lower:
  "ext \<in> set mediaExtensions \<Longrightarrow> \<forall>e \<in> set ext. \<not> (65 \<le> (of_char e :: nat) \<and> (of_char e :: nat) \<le> 90)"
  by (auto simp: mediaExtensions_def)

lemma mediaExtensions_pathSafe:
  "ext \<in> set mediaExtensions \<Longrightarrow> \<forall>e \<in> set ext. inRanges pathClass (of_char e)"
  by (auto simp: mediaExtensions_def inRanges_pathClass)

lemma rmatch_Alt_extensions:
  "[] \<in> set (rmatch True (Alt (map Str mediaExtensions)) r) \<longleftrightarrow>
     (\<exists>ext \<in> set mediaExtensions. map (\<lambda>c. toLowerCase (of_char c)) r = map of_char ext)"
proof -
  have "[] \<in> set (rmatch True (Alt (map Str mediaExtensions)) r) \<longleftrightarrow>
      (\<exists>ext \<in> set mediaExtensions. [] \<in> set (rmatch True (Str ext) r))"
    by (simp del: rmatch.simps(1))
  also have "\<dots> \<longleftrightarrow> (\<exists>ext \<in> set mediaExtensions. map (canonicalize True) r = map (canonicalize True) ext)"
    unfolding rmatch_Str by simp
  also have "\<dots> \<longleftrightarrow> (\<exists>ext \<in> set mediaExtensions. map (\<lambda>c. toLowerCase (of_char c)) r = map of_char ext)"
    using map_canonicalize_eq_lower [OF mediaExtensions_lower] by blast
  finally show ?thesis .
qed

lemma pathRegex_extensions:
  "pathRegex = Seq (Str ''/'') (Seq (Repeat (CharClass pathClass) 1 None)
     (Seq (Str ''.'') (Alt (map Str mediaExtensions))))"
  by (simp add: pathRegex_def mediaExtensions_def)

lemma isValidFilePath_decomp:
  "isValidFilePath s \<longleftrightarrow>
     (\<exists>stem r. s = CHR ''/'' # stem @ CHR ''.'' # r \<and> stem \<noteq> [] \<and> (\<forall>c \<in> set stem. pathSafeChar c) \<and>
        (\<exists>ext \<in> set mediaExtensions. map (\<lambda>c. toLowerCase (of_char c)) r = map of_char ext))"
  (is "?L \<longleftrightarrow> ?R")
proof -
  let ?rep = "Repeat (CharClass pathClass) 1 None"
  let ?alt = "Alt (map Str mediaExtensions)"
  have L: "?L \<longleftrightarrow> (\<exists>r1 r2 r3. r1 \<in> set (rmatch True (Str ''/'') s) \<and>
      r2 \<in> set (rmatch True ?rep r1) \<and> r3 \<in> set (rmatch True (Str ''.'') r2) \<and>
      [] \<in> set (rmatch True ?alt r3))"
    unfolding isValidFilePath_def regexTest_def pathRegex_extensions
    by (auto simp del: rmatch.simps(1,2,4,5))
  show ?thesis
  proof
    assume ?L
    with L obtain r1 r2 r3 where m: "r1 \<in> set (rmatch True (Str ''/'') s)"
      "r2 \<in> set (rmatch True ?rep r1)" "r3 \<in> set (rmatch True (Str ''.'') r2)"
      "[] \<in> set (rmatch True ?alt r3)" by blast
    from m(1) have s: "s = CHR ''/'' # r1" by (simp only: rmatch_Str_slash)
    from m(2) obtain k where k: "r2 = drop k r1" "1 \<le> k" "k \<le> length r1"
      "\<forall>c \<in> set (take k r1). classMatch True pathClass c"
      unfolding rmatch_Repeat_CharClass by blast
    from m(3) have r2: "r2 = CHR ''.'' # r3" by (simp only: rmatch_Str_dot)
    from m(4) have ext: "\<exists>ext \<in> set mediaExtensions. map (\<lambda>c. toLowerCase (of_char c)) r3 = map of_char ext"
      by (simp only: rmatch_Alt_extensions)
    have "r1 = take k r1 @ drop k r1" by simp
    with k(1) r2 have "r1 = take k r1 @ CHR ''.'' # r3" by simp
    with s have "s = CHR ''/'' # take k r1 @ CHR ''.'' # r3" by simp
    moreover from k(2,3) have "take k r1 \<noteq> []" by auto
    moreover from k(4) have "\<forall>c \<in> set (take k r1). pathSafeChar c"
      by (simp only: classMatch_pathClass)
    ultimately show ?R using ext by blast
  next
    assume ?R
    then obtain stem r where h: "s = CHR ''/'' # stem @ CHR ''.'' # r" "stem \<noteq> []"
      "\<forall>c \<in> set stem. pathSafeChar c"
      "\<exists>ext \<in> set mediaExtensions. map (\<lambda>c. toLowerCase (of_char c)) r = map of_char ext"
      by blast
    let ?r1 = "stem @ CHR ''.'' # r"
    let ?r2 = "CHR ''.'' # r"
    have 1: "?r1 \<in> set (rmatch True (Str ''/'') s)"
      using h(1) by (simp only: rmatch_Str_slash)
    have "?r2 = drop (length stem) ?r1" by simp
    moreover from h(2) have "1 \<le> length stem" by (cases stem) auto
    moreover have "length stem \<le> (case None of None \<Rightarrow> 1 + length ?r1 | Some n \<Rightarrow> n)" by simp
    moreover have "length stem \<le> length ?r1" by simp
    moreover from h(3) have "\<forall>c \<in> set (take (length stem) ?r1). classMatch True pathClass c"
      by (simp add: classMatch_pathClass)
    ultimately have 2: "?r2 \<in> set (rmatch True ?rep ?r1)"
      unfolding rmatch_Repeat_CharClass by blast
    have 3: "r \<in> set (rmatch True (Str ''.'') ?r2)"
      by (simp only: rmatch_Str_dot)
    from h(4) have 4: "[] \<in> set (rmatch True ?alt r)"
      by (simp only: rmatch_Alt_extensions)
    from 1 2 3 4 L show ?L by blast
  qed
qed


lemma toLowerCase_dot: "toLowerCase n = 46 \<longleftrightarrow> n = 46"
  unfolding toLowerCase_def inRange_def by (simp split: if_splits)

lemma lower_tail_pathSafe:
  assumes "ext \<in> set mediaExtensions"
    and "map (\<lambda>c. toLowerCase (of_char c)) r = map of_char ext"
    and "c \<in> set r"
  shows "pathSafeChar c"
proof -
  from assms(3) have "toLowerCase (of_char c) \<in> (\<lambda>c. toLowerCase (of_char c)) ` set r"
    by (rule imageI)
  also have "\<dots> = set (map (\<lambda>c. toLowerCase (of_char c)) r)"
    by (rule set_map [symmetric])
  also have "\<dots> = set (map of_char ext)"
    by (rule arg_cong [OF assms(2)])
  finally obtain e where e: "e \<in> set ext" "toLowerCase (of_char c) = of_char e"
    unfolding set_map by blast
  from mediaExtensions_pathSafe [OF assms(1)] e(1) have "inRanges pathClass (of_char e)"
    by blast
  then have "inRanges pathClass (toLowerCase (of_char c))" by (simp only: e(2))
  then have "inRanges pathClass (of_char c)" by (rule inRanges_pathClass_case [OF disjI2])
  then show ?thesis by (simp only: pathSafeChar_code)
qed

lemma isValidFilePath_shape: "isValidFilePath s \<longleftrightarrow> mediaPathShape s"
proof
  assume "isValidFilePath s"
  then obtain stem r ext where h: "s = CHR ''/'' # stem @ CHR ''.'' # r" "stem \<noteq> []"
    "\<forall>c \<in> set stem. pathSafeChar c" "ext \<in> set mediaExtensions"
    "map (\<lambda>c. toLowerCase (of_char c)) r = map of_char ext"
    unfolding isValidFilePath_decomp by blast
  from h(5) have len: "length r = length ext" by (rule map_eq_imp_length_eq)
  from h(2) have stem: "1 \<le> length stem" by (cases stem) auto
  have "take 1 s = ''/''" using h(1) by simp
  moreover have "\<forall>c \<in> set s. pathSafeChar c"
  proof
    fix c assume "c \<in> set s"
    with h(1) consider "c = CHR ''/''" | "c \<in> set stem" | "c = CHR ''.''" | "c \<in> set r" by auto
    then show "pathSafeChar c"
    proof cases
      case 1 then show ?thesis by (simp add: pathSafeChar_def)
    next
      case 2 with h(3) show ?thesis by simp
    next
      case 3 then show ?thesis by (simp add: pathSafeChar_def)
    next
      case 4 with h(4,5) show ?thesis by (rule lower_tail_pathSafe)
    qed
  qed
  moreover have "length ext + 3 \<le> length s" using h(1) len stem by simp
  moreover have "map (\<lambda>c. toLowerCase (of_char c)) (drop (length s - (length ext + 1)) s) =
      map of_char (CHR ''.'' # ext)"
  proof -
    have "length s - (length ext + 1) = length (CHR ''/'' # stem)" using h(1) len by simp
    moreover have "s = (CHR ''/'' # stem) @ CHR ''.'' # r" using h(1) by simp
    ultimately have "drop (length s - (length ext + 1)) s = CHR ''.'' # r"
      by simp
    with h(5) show ?thesis by (simp add: toLowerCase_def inRange_def)
  qed
  ultimately show "mediaPathShape s" unfolding mediaPathShape_def using h(4) by blast
next
  assume "mediaPathShape s"
  then obtain ext where h: "take 1 s = ''/''" "\<forall>c \<in> set s. pathSafeChar c"
    "ext \<in> set mediaExtensions" "length ext + 3 \<le> length s"
    "map (\<lambda>c. toLowerCase (of_char c)) (drop (length s - (length ext + 1)) s) =
       map of_char (CHR ''.'' # ext)"
    unfolding mediaPathShape_def by blast
  define j where "j = length s - (length ext + 1)"
  from h(1) obtain rest where s: "s = CHR ''/'' # rest" by (cases s) auto
  from h(5) obtain d r where dr: "drop j s = d # r" "toLowerCase (of_char d) = 46"
    "map (\<lambda>c. toLowerCase (of_char c)) r = map of_char ext"
    unfolding j_def by (cases "drop (length s - (length ext + 1)) s") auto
  from dr(2) have "(of_char d :: nat) = of_char CHR ''.''" by (simp add: toLowerCase_dot)
  then have d: "d = CHR ''.''" by (simp only: of_char_eq_iff)
  from h(4) have j: "2 \<le> j" "j \<le> length s" unfolding j_def by simp_all
  then obtain j' where j': "j = Suc j'" "1 \<le> j'" by (cases j) auto
  have "s = take j s @ drop j s" by simp
  with dr(1) d have "s = take j s @ CHR ''.'' # r" by simp
  moreover have "take j s = CHR ''/'' # take j' rest" using s j' by simp
  ultimately have eq: "s = CHR ''/'' # take j' rest @ CHR ''.'' # r" by simp
  have "j' \<le> length rest" using j(2) j'(1) s unfolding j'(1) by simp
  with j'(2) have ne: "take j' rest \<noteq> []" by auto
  have "set (take j' rest) \<subseteq> set s" using s by (auto dest: in_set_takeD)
  with h(2) have safe: "\<forall>c \<in> set (take j' rest). pathSafeChar c" by blast
  from eq ne safe h(3) dr(3) show "isValidFilePath s"
    unfolding isValidFilePath_decomp
    by (intro exI [of _ "take j' rest"] exI [of _ r] conjI bexI [of _ ext])
qed

subsection \<open>Minting: the order of the validation checks\<close>

lemma truthy_missing: "truthy p = None \<longleftrightarrow> missing p"
  by (simp add: truthy_None missing_def)

lemma truthy_present: "\<not> missing p \<Longrightarrow> truthy p = Some (the p)"
  by (cases p) (auto simp: missing_def truthy_def)

lemmas shape_eval = mediaPathShape_def requesterShape_def pathSafeChar_def identifierChar_def
  isAsciiLetter_def isAsciiDigit_def inRange_def mediaExtensions_def toLowerCase_def missing_def

text \<open>
  Claim C6. The generate handler applies its four checks in order and the first failure
  wins: a missing resource, then a missing requester, then a resource that is not of the
  media-path shape, then a requester that is not of the shape \<^verbatim>\<open>[A-Za-z0-9_]{3,50}\<close>; each
  failure is answered with status 400 and the message of its own field, and a request that
  passes all four is answered with the signed URL. The two patterns of the source are
  compared here with the shapes of the specification (\<open>isValidFilePath_shape\<close>,
  \<open>isValidUserId_shape\<close>); the media-path shape asks for at least one character between the
  leading separator and the final dot, as the pattern does.
\<close>

theorem mint_validation_order:
  "fst (generateSignedUrl src tExpiry tCreated tCleanup qFilePath qUserId store) =
     (if missing qFilePath then GenerateError 400 ''Missing required parameter: filePath''
      else if missing qUserId then GenerateError 400 ''Missing required parameter: userId''
      else if \<not> mediaPathShape (the qFilePath) then
        GenerateError 400 ''Invalid filePath format. Must be a valid path to a media file.''
      else if \<not> requesterShape (the qUserId) then
        GenerateError 400
          ''Invalid userId format. Must be alphanumeric with underscores, 3-50 characters.''
      else GenerateSuccess
        (signedUrlOf (the qFilePath) (generateToken src) (getExpiryTimestamp tExpiry) (the qUserId))
        (the qFilePath) (the qUserId) (getExpiryTimestamp tExpiry))"
proof (cases "missing qFilePath")
  case True
  then show ?thesis by (simp add: generateSignedUrl_def truthy_missing [symmetric])
next
  case fp: False
  show ?thesis
  proof (cases "missing qUserId")
    case True
    with fp show ?thesis
      by (simp add: generateSignedUrl_def truthy_present truthy_missing [symmetric])
  next
    case False
    with fp show ?thesis
      by (simp add: generateSignedUrl_def truthy_present isValidFilePath_shape
          isValidUserId_shape Let_def)
  qed
qed

theorem mint_validation_order_witness:
  "fst (generateSignedUrl (\<lambda>i. 0) 0 0 0 None (Some ''ab'') []) =
     GenerateError 400 ''Missing required parameter: filePath'' \<and>
   fst (generateSignedUrl (\<lambda>i. 0) 0 0 0 (Some ''invalid-path'') (Some []) []) =
     GenerateError 400 ''Missing required parameter: userId'' \<and>
   fst (generateSignedUrl (\<lambda>i. 0) 0 0 0 (Some ''invalid-path'') (Some ''ab'') []) =
     GenerateError 400 ''Invalid filePath format. Must be a valid path to a media file.'' \<and>
   fst (generateSignedUrl (\<lambda>i. 0) 0 0 0 (Some ''/videos/intro.mp4'') (Some ''ab'') []) =
     GenerateError 400
       ''Invalid userId format. Must be alphanumeric with underscores, 3-50 characters.''"
  using mint_validation_order [of "\<lambda>i. 0" 0 0 0 None "Some ''ab''" "[]"]
    mint_validation_order [of "\<lambda>i. 0" 0 0 0 "Some ''invalid-path''" "Some []" "[]"]
    mint_validation_order [of "\<lambda>i. 0" 0 0 0 "Some ''invalid-path''" "Some ''ab''" "[]"]
    mint_validation_order [of "\<lambda>i. 0" 0 0 0 "Some ''/videos/intro.mp4''" "Some ''ab''" "[]"]
  by (simp add: shape_eval)

text \<open>
  Claim C7. A request that fails any of the four checks is answered with the validation
  failure and the store it was given: nothing is inserted and the clean-up does not run,
  so even an entry that has expired stays where it was.
\<close>

theorem mint_invalid_no_mutation:
  assumes "missing qFilePath \<or> missing qUserId \<or> \<not> mediaPathShape (the qFilePath)
     \<or> \<not> requesterShape (the qUserId)"
  shows "\<exists>err. generateSignedUrl src tExpiry tCreated tCleanup qFilePath qUserId store =
     (GenerateError 400 err, store)"
proof (cases "missing qFilePath")
  case True
  then show ?thesis by (simp add: generateSignedUrl_def truthy_missing [symmetric])
next
  case fp: False
  show ?thesis
  proof (cases "missing qUserId")
    case True
    with fp show ?thesis
      by (simp add: generateSignedUrl_def truthy_present truthy_missing [symmetric])
  next
    case False
    with fp assms show ?thesis
      by (auto simp add: generateSignedUrl_def truthy_present isValidFilePath_shape
          isValidUserId_shape)
  qed
qed

theorem mint_invalid_no_mutation_witness:
  "\<not> requesterShape ''ab'' \<and>
   (\<exists>err. generateSignedUrl (\<lambda>i. 0) 1620000300000 1620000300000 1620000300000
      (Some ''/videos/intro.mp4'') (Some ''ab'') storeA = (GenerateError 400 err, storeA))"
proof -
  have h: "\<not> requesterShape ''ab''" by (simp add: requesterShape_def)
  then have "missing (Some ''/videos/intro.mp4'') \<or> missing (Some ''ab'') \<or>
      \<not> mediaPathShape (the (Some ''/videos/intro.mp4'')) \<or> \<not> requesterShape (the (Some ''ab''))"
    by simp
  from mint_invalid_no_mutation [OF this] h show ?thesis by blast
qed

subsection \<open>Token validation\<close>

text \<open>
  Claim C10. For a token that is in the store and has not expired, the validate handler
  answers valid with the whole stored binding (file path, user, expiry and remaining time)
  and leaves the store alone. The token is the only thing the caller presents: the handler
  has no parameter for a claimed resource or requester, so no binding is compared.
\<close>

theorem validate_token_discloses_binding:
  assumes "map_of store token = Some tokenData" and "token \<noteq> []"
    and "\<not> expires tokenData < now div 1000"
  shows "validateToken now (Some token) store =
     (TokenValid (filePath tokenData) (userId tokenData) (expires tokenData)
        (expires tokenData - now div 1000), store)"
  using assms by (simp add: validateToken_def truthy_def)

theorem validate_token_discloses_binding_witness:
  "validateToken 1620000060000 (Some tokenA) storeA =
     (TokenValid ''/videos/intro.mp4'' ''USER_001'' 1620000120 60, storeA)"
  using validate_token_discloses_binding [of storeA tokenA entryA 1620000060000]
  by simp

subsection \<open>Tokens: the hex encoding loses nothing\<close>

lemma digitValue_hexDigit: "d < 16 \<Longrightarrow> digitValue (hexDigit d) = Some d"
proof -
  have "list_all (\<lambda>d. digitValue (hexDigit d) = Some d) [0 ..< 16]"
    by code_simp
  then have "\<forall>d \<in> set [0 ..< 16]. digitValue (hexDigit d) = Some d"
    by (simp only: list_all_iff)
  then show "d < 16 \<Longrightarrow> digitValue (hexDigit d) = Some d"
    by (simp del: upt_rec_numeral)
qed

lemma hexDigit_chars: "d < 16 \<Longrightarrow> hexDigit d \<in> set ''0123456789abcdef''"
  unfolding hexDigit_def by (rule nth_mem) simp

lemma byteToHex_inj: "byteToHex a = byteToHex b \<Longrightarrow> a = b"
proof -
  assume "byteToHex a = byteToHex b"
  then have h: "hexDigit (unat a div 16) = hexDigit (unat b div 16)"
    "hexDigit (unat a mod 16) = hexDigit (unat b mod 16)"
    by (simp_all add: byteToHex_def)
  have lt: "unat a div 16 < 16" "unat b div 16 < 16"
    using unsigned_less [of a, where ?'a = nat] unsigned_less [of b, where ?'a = nat] by simp_all
  from h(1) have "digitValue (hexDigit (unat a div 16)) = digitValue (hexDigit (unat b div 16))"
    by simp
  with lt have d: "unat a div 16 = unat b div 16" by (simp add: digitValue_hexDigit)
  from h(2) have "digitValue (hexDigit (unat a mod 16)) = digitValue (hexDigit (unat b mod 16))"
    by simp
  then have m: "unat a mod 16 = unat b mod 16" by (simp add: digitValue_hexDigit)
  have "unat a = unat a div 16 * 16 + unat a mod 16" by simp
  also have "\<dots> = unat b div 16 * 16 + unat b mod 16" by (simp only: d m)
  also have "\<dots> = unat b" by simp
  finally show "a = b" by (simp only: word_unat_eq_iff)
qed

lemma toHex_inj: "length as = length bs \<Longrightarrow> toHex as = toHex bs \<Longrightarrow> as = bs"
proof (induction as bs rule: list_induct2)
  case Nil
  then show ?case by simp
next
  case (Cons a as b bs)
  from Cons.prems have "byteToHex a @ toHex as = byteToHex b @ toHex bs"
    by (simp add: toHex_def)
  moreover have "length (byteToHex a) = length (byteToHex b)" by (simp add: byteToHex_def)
  ultimately have "byteToHex a = byteToHex b" "toHex as = toHex bs" by simp_all
  with Cons.IH show ?case by (simp add: byteToHex_inj)
qed

lemma length_toHex: "length (toHex bs) = 2 * length bs"
  by (induction bs) (simp_all add: toHex_def byteToHex_def)

lemma toHex_chars: "c \<in> set (toHex bs) \<Longrightarrow> c \<in> set ''0123456789abcdef''"
proof -
  assume "c \<in> set (toHex bs)"
  then obtain b :: "8 word" where "c = hexDigit (unat b div 16) \<or> c = hexDigit (unat b mod 16)"
    by (auto simp: toHex_def byteToHex_def)
  moreover have "unat b div 16 < 16" using unsigned_less [of b, where ?'a = nat] by simp
  moreover have "unat b mod 16 < 16" by simp
  ultimately show ?thesis using hexDigit_chars by blast
qed

lemma length_generateToken: "length (generateToken src) = 64"
  by (simp add: generateToken_def length_toHex randomBytes_def)

lemma generateToken_inj:
  assumes "generateToken src = generateToken src'" and "i < 32"
  shows "src i = src' i"
proof -
  have "randomBytes 32 src = randomBytes 32 src'"
    using assms(1) unfolding generateToken_def
    by (intro toHex_inj) (simp_all add: randomBytes_def)
  then have "map src [0 ..< 32] ! i = map src' [0 ..< 32] ! i"
    by (simp only: randomBytes_def)
  with assms(2) show ?thesis by (simp del: upt_rec_numeral)
qed

subsection \<open>Minting: a valid request\<close>

lemma generate_valid:
  assumes "mediaPathShape fp" and "requesterShape uid"
  shows "generateSignedUrl src tExpiry tCreated tCleanup (Some fp) (Some uid) store =
     (GenerateSuccess (signedUrlOf fp (generateToken src) (getExpiryTimestamp tExpiry) uid)
        fp uid (getExpiryTimestamp tExpiry),
      cleanupExpired (tCleanup div 1000)
        (AList.update (generateToken src)
           \<lparr>filePath = fp, userId = uid, expires = getExpiryTimestamp tExpiry,
            createdAt = tCreated\<rparr> store))"
proof -
  from assms(1) have "fp \<noteq> []" by (auto simp: mediaPathShape_def)
  moreover from assms(2) have "uid \<noteq> []" by (auto simp: requesterShape_def)
  ultimately show ?thesis using assms
    by (simp add: generateSignedUrl_def truthy_def isValidFilePath_shape isValidUserId_shape Let_def)
qed

subsection \<open>The store: clean-up and the key invariant\<close>

lemma fold_delete_filter:
  "fold (\<lambda>(key, val) s. if P val then AList.delete key s else s) xs s =
     filter (\<lambda>(k, v). \<not> (\<exists>v'. (k, v') \<in> set xs \<and> P v')) s"
proof (induction xs arbitrary: s)
  case Nil
  then show ?case by simp
next
  case (Cons x xs)
  obtain k0 v0 where x: "x = (k0, v0)" by (cases x)
  show ?case
    unfolding x by (auto simp add: Cons.IH AList.delete_eq intro!: filter_cong)
qed

lemma cleanupExpired_filter:
  assumes "storeInv store"
  shows "cleanupExpired ct store = filter (\<lambda>(k, v). \<not> expires v < ct) store"
proof -
  have "(k, v) \<in> set store \<Longrightarrow> (\<exists>v'. (k, v') \<in> set store \<and> expires v' < ct) \<longleftrightarrow> expires v < ct"
    for k v
    using assms unfolding storeInv_def by (auto dest: eq_key_imp_eq_value)
  then show ?thesis
    unfolding cleanupExpired_def fold_delete_filter
    by (intro filter_cong) auto
qed

lemma map_of_cleanupExpired:
  assumes "storeInv store" and "map_of store k = Some d" and "\<not> expires d < ct"
  shows "map_of (cleanupExpired ct store) k = Some d"
  unfolding cleanupExpired_filter [OF assms(1)]
  using assms(2,3) map_of_filter_in [of store k d "\<lambda>k v. \<not> expires v < ct"] by simp

lemma storeInv_update: "storeInv store \<Longrightarrow> storeInv (AList.update k v store)"
  unfolding storeInv_def by (rule distinct_update)

lemma storeInv_delete: "storeInv store \<Longrightarrow> storeInv (AList.delete k store)"
  unfolding storeInv_def by (rule distinct_delete)

lemma storeInv_cleanupExpired: "storeInv store \<Longrightarrow> storeInv (cleanupExpired ct store)"
  by (simp add: cleanupExpired_filter) (simp add: storeInv_def distinct_map_filter)

text \<open>Every handler keeps the keys of the store distinct.\<close>

lemma storeInv_generateSignedUrl:
  "storeInv store \<Longrightarrow>
   storeInv (snd (generateSignedUrl src tExpiry tCreated tCleanup qFilePath qUserId store))"
  by (simp add: generateSignedUrl_def Let_def storeInv_update storeInv_cleanupExpired
      split: option.splits)

lemma storeInv_validateToken:
  "storeInv store \<Longrightarrow> storeInv (snd (validateToken now qToken store))"
  by (simp add: validateToken_def Let_def storeInv_delete split: option.splits)

lemma storeInv_media:
  "storeInv store \<Longrightarrow> storeInv (snd (media now reqPath qToken qExpires qUserId store))"
  by (simp add: media_def Let_def storeInv_delete split: option.splits)

lemma generateToken_7: "generateToken (\<lambda>i. 7) = tokenA"
  by code_simp

lemma storeA_minted:
  "snd (generateSignedUrl (\<lambda>i. 7) 1620000000000 1620000000000 1620000000000
     (Some ''/videos/intro.mp4'') (Some ''USER_001'') []) = storeA"
proof -
  have h: "mediaPathShape ''/videos/intro.mp4''" "requesterShape ''USER_001''"
    by (simp_all add: shape_eval)
  show ?thesis
    by (simp add: generate_valid [OF h] generateToken_7 cleanupExpired_def getExpiryTimestamp_def)
qed

subsection \<open>Minting: what a valid request is answered and what is stored\<close>

text \<open>
  Claim C8. For every valid pair the generate handler answers with the signed URL, which
  carries the token after \<^verbatim>\<open>?token=\<close>, and with the expiry. The token has a fixed length:
  it is the 64 lower-case hex digits of the 32 bytes drawn, and every one of those bytes
  can be read back from it, so it carries all 256 bits drawn. The expiry is the second of
  issue plus 120, \<open>expiresAt = tExpiry div 1000 + 120\<close>, where \<open>tExpiry\<close> is the clock read
  by \<^verbatim>\<open>getExpiryTimestamp\<close>. The entry stored under the token holds that expiry and, as
  \<open>createdAt\<close>, the clock read next; when both reads fall in the same second the stored
  expiry is the second of \<open>createdAt\<close> plus 120.
\<close>

theorem mint_token_and_expiry:
  assumes "mediaPathShape fp" and "requesterShape uid"
  shows "fst (generateSignedUrl src tExpiry tCreated tCleanup (Some fp) (Some uid) store) =
       GenerateSuccess
         (''https://candidate-001-powerofaum-module-sig-five.vercel.app/media'' @ fp @
          ''?token='' @ generateToken src @
          ''&expires='' @ numberToString (tExpiry div 1000 + 120) @ ''&userId='' @ uid)
         fp uid (tExpiry div 1000 + 120) \<and>
     length (generateToken src) = 64 \<and>
     set (generateToken src) \<subseteq> set ''0123456789abcdef'' \<and>
     (\<forall>src'. generateToken src' = generateToken src \<longrightarrow> (\<forall>i < 32. src' i = src i)) \<and>
     (storeInv store \<and> tCleanup div 1000 \<le> tExpiry div 1000 + 120 \<longrightarrow>
        map_of (snd (generateSignedUrl src tExpiry tCreated tCleanup (Some fp) (Some uid) store))
          (generateToken src) =
        Some \<lparr>filePath = fp, userId = uid, expires = tExpiry div 1000 + 120,
          createdAt = tCreated\<rparr>) \<and>
     (storeInv store \<and> tCleanup div 1000 \<le> tExpiry div 1000 + 120 \<and>
      tCreated div 1000 = tExpiry div 1000 \<longrightarrow>
        (\<exists>binding.
           map_of (snd (generateSignedUrl src tExpiry tCreated tCleanup (Some fp) (Some uid) store))
             (generateToken src) = Some binding \<and>
           expires binding = createdAt binding div 1000 + 120))"
proof -
  let ?e = "tExpiry div 1000 + 120"
  let ?d = "\<lparr>filePath = fp, userId = uid, expires = ?e, createdAt = tCreated\<rparr>"
  let ?s1 = "AList.update (generateToken src) ?d store"
  let ?s' = "snd (generateSignedUrl src tExpiry tCreated tCleanup (Some fp) (Some uid) store)"
  have 1: "fst (generateSignedUrl src tExpiry tCreated tCleanup (Some fp) (Some uid) store) =
       GenerateSuccess
         (''https://candidate-001-powerofaum-module-sig-five.vercel.app/media'' @ fp @
          ''?token='' @ generateToken src @
          ''&expires='' @ numberToString ?e @ ''&userId='' @ uid)
         fp uid ?e"
    by (simp add: generate_valid [OF assms] getExpiryTimestamp_def signedUrlOf_def)
  have 2: "length (generateToken src) = 64" by (rule length_generateToken)
  have 3: "set (generateToken src) \<subseteq> set ''0123456789abcdef''"
    unfolding generateToken_def using toHex_chars by blast
  have 4: "\<forall>src'. generateToken src' = generateToken src \<longrightarrow> (\<forall>i < 32. src' i = src i)"
    using generateToken_inj by blast
  have s': "?s' = cleanupExpired (tCleanup div 1000) ?s1"
    by (simp add: generate_valid [OF assms] getExpiryTimestamp_def)
  have 5: "map_of ?s' (generateToken src) = Some ?d"
    if "storeInv store" "tCleanup div 1000 \<le> ?e"
  proof -
    have "storeInv ?s1" using that(1) by (rule storeInv_update)
    moreover have "map_of ?s1 (generateToken src) = Some ?d" by (simp add: update_conv')
    moreover have "\<not> expires ?d < tCleanup div 1000" using that(2) by simp
    ultimately show ?thesis unfolding s' by (rule map_of_cleanupExpired)
  qed
  have 6: "\<exists>binding. map_of ?s' (generateToken src) = Some binding \<and>
      expires binding = createdAt binding div 1000 + 120"
    if "storeInv store" "tCleanup div 1000 \<le> ?e" "tCreated div 1000 = tExpiry div 1000"
    using 5 [OF that(1,2)] that(3) by simp
  from 1 2 3 4 5 6 show ?thesis by blast
qed

theorem mint_token_and_expiry_witness:
  "fst (generateSignedUrl (\<lambda>i. 7) 1620000000400 1620000000700 1620000000900
          (Some ''/videos/intro.mp4'') (Some ''USER_001'') []) =
     GenerateSuccess
       (''https://candidate-001-powerofaum-module-sig-five.vercel.app/media/videos/intro.mp4'' @
        ''?token='' @ tokenA @ ''&expires=1620000120&userId=USER_001'')
       ''/videos/intro.mp4'' ''USER_001'' 1620000120 \<and>
   length tokenA = 64 \<and>
   map_of (snd (generateSignedUrl (\<lambda>i. 7) 1620000000400 1620000000700 1620000000900
          (Some ''/videos/intro.mp4'') (Some ''USER_001'') [])) tokenA =
     Some \<lparr>filePath = ''/videos/intro.mp4'', userId = ''USER_001'', expires = 1620000120,
       createdAt = 1620000000700\<rparr> \<and>
   (\<exists>binding.
      map_of (snd (generateSignedUrl (\<lambda>i. 7) 1620000000400 1620000000700 1620000000900
          (Some ''/videos/intro.mp4'') (Some ''USER_001'') [])) tokenA = Some binding \<and>
      expires binding = createdAt binding div 1000 + 120)"
proof -
  have h: "mediaPathShape ''/videos/intro.mp4''" "requesterShape ''USER_001''"
    by (simp_all add: shape_eval)
  have n: "numberToString 1620000120 = ''1620000120''"
    by (simp add: numberToString_def decimalDigits.simps digitChar_def)
  note t = mint_token_and_expiry [OF h, of "\<lambda>i. 7" 1620000000400 1620000000700
      1620000000900 "[]", unfolded generateToken_7]
  have 1: "fst (generateSignedUrl (\<lambda>i. 7) 1620000000400 1620000000700 1620000000900
          (Some ''/videos/intro.mp4'') (Some ''USER_001'') []) =
     GenerateSuccess
       (''https://candidate-001-powerofaum-module-sig-five.vercel.app/media/videos/intro.mp4'' @
        ''?token='' @ tokenA @ ''&expires=1620000120&userId=USER_001'')
       ''/videos/intro.mp4'' ''USER_001'' 1620000120"
    using t [THEN conjunct1] n by simp
  have 2: "length tokenA = 64" using t [THEN conjunct2, THEN conjunct1] .
  have 3: "map_of (snd (generateSignedUrl (\<lambda>i. 7) 1620000000400 1620000000700 1620000000900
          (Some ''/videos/intro.mp4'') (Some ''USER_001'') [])) tokenA =
     Some \<lparr>filePath = ''/videos/intro.mp4'', userId = ''USER_001'', expires = 1620000120,
       createdAt = 1620000000700\<rparr>"
    using t [THEN conjunct2, THEN conjunct2, THEN conjunct2, THEN conjunct2, THEN conjunct1]
    by (simp add: storeInv_def)
  have 4: "\<exists>binding.
      map_of (snd (generateSignedUrl (\<lambda>i. 7) 1620000000400 1620000000700 1620000000900
          (Some ''/videos/intro.mp4'') (Some ''USER_001'') [])) tokenA = Some binding \<and>
      expires binding = createdAt binding div 1000 + 120"
    using t [THEN conjunct2, THEN conjunct2, THEN conjunct2, THEN conjunct2, THEN conjunct2]
    by (simp add: storeInv_def)
  from 1 2 3 4 show ?thesis by blast
qed

subsection \<open>Printing a number and parsing it back\<close>

lemma isRadixDigit_10: "isRadixDigit 10 c \<longleftrightarrow> 48 \<le> (of_char c :: nat) \<and> (of_char c :: nat) \<le> 57"
  unfolding isRadixDigit_def digitValue_def inRange_def Let_def
  by (simp split: if_splits) arith

lemma digitValue_digitChar: "d < 10 \<Longrightarrow> digitValue (digitChar d) = Some d"
proof -
  have "list_all (\<lambda>d. digitValue (digitChar d) = Some d) [0 ..< 10]"
    by code_simp
  then have "\<forall>d \<in> set [0 ..< 10]. digitValue (digitChar d) = Some d"
    by (simp only: list_all_iff)
  then show "d < 10 \<Longrightarrow> digitValue (digitChar d) = Some d"
    by (simp del: upt_rec_numeral)
qed

lemma isRadixDigit_digitChar: "d < 10 \<Longrightarrow> isRadixDigit 10 (digitChar d)"
  by (simp add: isRadixDigit_def digitValue_digitChar)

lemma decimalDigits_digits: "c \<in> set (decimalDigits n) \<Longrightarrow> isRadixDigit 10 c"
proof (induction n rule: decimalDigits.induct)
  case (1 n)
  show ?case
  proof (cases "n < 10")
    case True
    with "1.prems" show ?thesis
      by (simp add: decimalDigits.simps [of n] isRadixDigit_digitChar)
  next
    case False
    with "1.prems" "1.IH" show ?thesis
      by (auto simp add: decimalDigits.simps [of n] isRadixDigit_digitChar)
  qed
qed

lemma decimalDigits_nonempty: "decimalDigits n \<noteq> []"
  by (simp add: decimalDigits.simps [of n])

lemma digitsToNat_snoc:
  "digitsToNat R (Z @ [c]) = digitsToNat R Z * R + (case digitValue c of None \<Rightarrow> 0 | Some d \<Rightarrow> d)"
  by (simp add: digitsToNat_def)

lemma digitsToNat_decimalDigits: "digitsToNat 10 (decimalDigits n) = n"
proof (induction n rule: decimalDigits.induct)
  case (1 n)
  show ?case
  proof (cases "n < 10")
    case True
    then show ?thesis
      by (simp add: decimalDigits.simps [of n] digitsToNat_def digitValue_digitChar)
  next
    case False
    with "1.IH" show ?thesis
      by (simp add: decimalDigits.simps [of n] digitsToNat_snoc digitValue_digitChar)
  qed
qed

lemma parseInt_digits:
  assumes "Z \<noteq> []" and "\<forall>c \<in> set Z. isRadixDigit 10 c"
  shows "parseInt Z = Some (int (digitsToNat 10 Z))"
    and "parseInt (CHR ''-'' # Z) = Some (- int (digitsToNat 10 Z))"
proof -
  from assms obtain z Z' where Z: "Z = z # Z'" by (cases Z) auto
  from assms(2) Z have z: "48 \<le> (of_char z :: nat)" "(of_char z :: nat) \<le> 57"
    by (simp_all add: isRadixDigit_10)
  have ws: "\<not> isWhiteSpace z" using z by (auto simp: isWhiteSpace_def)
  have sign: "z \<noteq> CHR ''-''" "z \<noteq> CHR ''+''" using z by auto
  have nohex: "take 2 Z \<noteq> ''0x''" "take 2 Z \<noteq> ''0X''"
  proof -
    { fix x assume "take 2 Z = [CHR ''0'', x]"
      then have "x \<in> set (take 2 Z)" by simp
      then have "x \<in> set Z" by (rule in_set_takeD)
      with assms(2) have "isRadixDigit 10 x" by blast
      then have "x \<noteq> CHR ''x''" "x \<noteq> CHR ''X''" by (auto simp: isRadixDigit_10) }
    then show "take 2 Z \<noteq> ''0x''" "take 2 Z \<noteq> ''0X''" by blast+
  qed
  have tw: "takeWhile (isRadixDigit 10) Z = Z" using assms(2) by (simp add: takeWhile_eq_all_conv)
  have dw: "dropWhile isWhiteSpace Z = Z" using ws by (simp add: Z)
  have tk: "take (Suc 0) Z \<noteq> ''-''" "take (Suc 0) Z \<noteq> ''+''" using sign by (simp_all add: Z)
  show "parseInt Z = Some (int (digitsToNat 10 Z))"
    unfolding parseInt_def by (simp add: Let_def dw tk nohex tw assms(1))
  show "parseInt (CHR ''-'' # Z) = Some (- int (digitsToNat 10 Z))"
    unfolding parseInt_def by (simp add: isWhiteSpace_def Let_def nohex tw assms(1))
qed

lemma parseInt_numberToString: "parseInt (numberToString n) = Some n"
  unfolding numberToString_def
  using parseInt_digits [OF decimalDigits_nonempty, of "nat n"]
    parseInt_digits [OF decimalDigits_nonempty, of "nat (- n)"]
  by (simp add: decimalDigits_digits digitsToNat_decimalDigits)

lemma numberToString_nonempty: "numberToString n \<noteq> []"
  by (simp add: numberToString_def decimalDigits_nonempty)

lemma replaceFirst_media: "replaceFirst ''/media'' [] (''/media'' @ fp) = fp"
  by simp

subsection \<open>Redeeming: the media handler\<close>

lemmas parseInt_eval = parseInt_def isWhiteSpace_def isRadixDigit_def digitValue_def
  digitsToNat_def inRange_def

lemma media_found:
  assumes "map_of store token = Some tokenData" and "token \<noteq> []" and "exps \<noteq> []"
    and "uid \<noteq> []"
  shows "media now reqPath (Some token) (Some exps) (Some uid) store =
     (if jsGreater (now div 1000) (parseInt exps) then
        (case parseInt exps of
           None \<Rightarrow> (InternalError, AList.delete token store)
         | Some e \<Rightarrow>
             if validTimeValue (e * 1000) then (TokenExpired e, AList.delete token store)
             else (InternalError, AList.delete token store))
      else if filePath tokenData \<noteq> replaceFirst ''/media'' [] reqPath \<or> userId tokenData \<noteq> uid
        then (BindingMismatch, store)
      else
        (case parseInt exps of
           None \<Rightarrow> (InternalError, store)
         | Some e \<Rightarrow>
             if validTimeValue (e * 1000)
             then (Granted (replaceFirst ''/media'' [] reqPath) uid (e - now div 1000) e, store)
             else (InternalError, store)))"
  using assms by (simp add: media_def truthy_def Let_def)

lemma parseInt_Some_nonempty: "parseInt exps = Some e \<Longrightarrow> exps \<noteq> []"
  by (auto simp: parseInt_def Let_def)

text \<open>
  Claim C2, amended. The expiry decision and the reported remaining time of the media
  handler come from \<^verbatim>\<open>parseInt\<close> of the \<^verbatim>\<open>expires\<close> parameter of the request and not from the
  stored entry: for every token in the store whose stored binding matches the claimed file
  path and user, access is granted whenever the parameter parses to a time that is not
  before now and that is a time value (at most \<open>8640000000000\<close> seconds), whatever the
  stored \<open>expires\<close> is; the remaining time reported is that parsed time minus now.
\<close>

theorem redeem_trusts_supplied_expires:
  assumes "map_of store token = Some tokenData" and "token \<noteq> []" and "uid \<noteq> []"
    and "filePath tokenData = replaceFirst ''/media'' [] reqPath" and "userId tokenData = uid"
    and "parseInt exps = Some e" and "now div 1000 \<le> e" and "validTimeValue (e * 1000)"
  shows "media now reqPath (Some token) (Some exps) (Some uid) store =
     (Granted (filePath tokenData) uid (e - now div 1000) e, store)"
  using assms(4-8)
  by (simp add: media_found [OF assms(1,2) parseInt_Some_nonempty [OF assms(6)] assms(3)]
      jsGreater_def)

theorem redeem_trusts_supplied_expires_witness:
  "parseInt ''1620009999'' = Some 1620009999 \<and>
   media 1620000300000 ''/media/videos/intro.mp4'' (Some tokenA) (Some ''1620009999'')
     (Some ''USER_001'') storeA =
   (Granted ''/videos/intro.mp4'' ''USER_001'' 9699 1620009999, storeA)"
proof -
  have p: "parseInt ''1620009999'' = Some 1620009999" by (simp add: parseInt_eval)
  from redeem_trusts_supplied_expires [of storeA tokenA entryA "''USER_001''"
      "''/media/videos/intro.mp4''" "''1620009999''" 1620009999 1620000300000,
      OF _ _ _ _ _ p] p
  show ?thesis by (simp add: validTimeValue_def)
qed

text \<open>
  Claim C2 as stated also promises access when the parameter parses to \<^verbatim>\<open>NaN\<close>. There the
  expiry check passes and the binding matches, but printing \<^verbatim>\<open>expiresAt\<close> throws and the
  handler answers 500: no access is granted.
\<close>

theorem redeem_nan_expires_counterexample:
  "parseInt ''abc'' = None \<and>
   media 1620000060000 ''/media/videos/intro.mp4'' (Some tokenA) (Some ''abc'')
     (Some ''USER_001'') storeA = (InternalError, storeA)"
proof -
  have p: "parseInt ''abc'' = None" by (simp add: parseInt_eval)
  then show ?thesis by (simp add: media_def truthy_def jsGreater_def Let_def)
qed

text \<open>
  A mismatching request that passes the expiry check is answered binding mismatch and
  leaves the store alone.
\<close>

lemma redeem_mismatch_not_expired:
  assumes "map_of store token = Some tokenData" and "token \<noteq> []" and "exps \<noteq> []"
    and "uid \<noteq> []"
    and "\<not> jsGreater (now div 1000) (parseInt exps)"
    and "filePath tokenData \<noteq> replaceFirst ''/media'' [] reqPath \<or> userId tokenData \<noteq> uid"
  shows "media now reqPath (Some token) (Some exps) (Some uid) store = (BindingMismatch, store)"
  using assms(5,6) by (simp add: media_found [OF assms(1-4)])

text \<open>
  Claim C3. The claim: a request whose binding does not match the stored one is answered
  binding mismatch, the entry is not evicted, and the token stays redeemable with its true
  binding. The code on a stored token that has not expired (60 seconds after the mint), at
  a request with the wrong user whose \<^verbatim>\<open>expires\<close> parameter is \<^verbatim>\<open>1\<close>: the expiry check, made
  on that parameter before the binding check, answers expired and deletes the entry, and
  the rightful holder, one second later with the signed URL, finds no token.
\<close>

theorem redeem_mismatch_forged_expiry:
  "media 1620000060000 ''/media/videos/intro.mp4'' (Some tokenA) (Some ''1'')
     (Some ''MALLORY'') storeA = (TokenExpired 1, []) \<and>
   media 1620000061000 ''/media/videos/intro.mp4'' (Some tokenA) (Some ''1620000120'')
     (Some ''USER_001'')
     (snd (media 1620000060000 ''/media/videos/intro.mp4'' (Some tokenA) (Some ''1'')
        (Some ''MALLORY'') storeA)) = (TokenNotFound, [])"
proof -
  have p: "parseInt ''1'' = Some 1" by (simp add: parseInt_eval)
  have 1: "media 1620000060000 ''/media/videos/intro.mp4'' (Some tokenA) (Some ''1'')
     (Some ''MALLORY'') storeA = (TokenExpired 1, [])"
    by (simp add: media_def truthy_def p jsGreater_def validTimeValue_def Let_def)
  have 2: "media 1620000061000 ''/media/videos/intro.mp4'' (Some tokenA) (Some ''1620000120'')
     (Some ''USER_001'') [] = (TokenNotFound, [])"
    by (simp add: media_def truthy_def Let_def)
  show ?thesis unfolding 1 using 1 2 by simp
qed

theorem redeem_mismatch_forged_expiry_witness:
  "statusCode (fst (media 1620000060000 ''/media/videos/intro.mp4'' (Some tokenA) (Some ''1'')
     (Some ''MALLORY'') storeA)) = 410 \<and>
   snd (media 1620000060000 ''/media/videos/intro.mp4'' (Some tokenA) (Some ''1'')
     (Some ''MALLORY'') storeA) = []"
  using redeem_mismatch_forged_expiry by (simp add: statusCode_def)

subsection \<open>Round trip\<close>

lemma generateToken_nonempty: "generateToken src \<noteq> []"
  using length_generateToken [of src] by auto

text \<open>
  Claim C9. Round trip: for every valid pair, a successful mint followed by a redeem of the
  returned token through the signed URL (path \<^verbatim>\<open>/media\<close> and the file path, the token, the
  printed expiry, the user), at a clock reading that is not before the mint's and falls
  before the second of expiry, is granted, with a remaining time in \<open>(0, 120]\<close> seconds. The
  store the mint starts from has distinct keys, as every \<^verbatim>\<open>Map\<close> has, and the expiry is a
  time value, as it is for every clock reading up to two minutes before the last instant a
  \<^verbatim>\<open>Date\<close> holds.
\<close>

theorem mint_redeem_round_trip:
  assumes "storeInv store" and "mediaPathShape fp" and "requesterShape uid"
    and "validTimeValue (getExpiryTimestamp tExpiry * 1000)"
    and "tExpiry \<le> now" and "tCleanup \<le> now"
    and "now div 1000 < getExpiryTimestamp tExpiry"
  shows "\<exists>remainingSeconds.
     media now (''/media'' @ fp) (Some (generateToken src))
       (Some (numberToString (getExpiryTimestamp tExpiry))) (Some uid)
       (snd (generateSignedUrl src tExpiry tCreated tCleanup (Some fp) (Some uid) store)) =
     (Granted fp uid remainingSeconds (getExpiryTimestamp tExpiry),
      snd (generateSignedUrl src tExpiry tCreated tCleanup (Some fp) (Some uid) store)) \<and>
     0 < remainingSeconds \<and> remainingSeconds \<le> 120"
proof -
  let ?e = "getExpiryTimestamp tExpiry"
  let ?d = "\<lparr>filePath = fp, userId = uid, expires = ?e, createdAt = tCreated\<rparr>"
  let ?s1 = "AList.update (generateToken src) ?d store"
  let ?s2 = "cleanupExpired (tCleanup div 1000) ?s1"
  have s2: "snd (generateSignedUrl src tExpiry tCreated tCleanup (Some fp) (Some uid) store) = ?s2"
    by (simp add: generate_valid [OF assms(2,3)])
  have inv: "storeInv ?s1" using assms(1) by (rule storeInv_update)
  have "map_of ?s1 (generateToken src) = Some ?d" by (simp add: update_conv')
  moreover have "tCleanup div 1000 \<le> now div 1000" using assms(6) by (rule zdiv_mono1) simp
  with assms(7) have "\<not> expires ?d < tCleanup div 1000" by simp
  ultimately have look: "map_of ?s2 (generateToken src) = Some ?d"
    by (rule map_of_cleanupExpired [OF inv])
  from assms(3) have uid: "uid \<noteq> []" by (auto simp: requesterShape_def)
  have "tExpiry div 1000 \<le> now div 1000" using assms(5) by (rule zdiv_mono1) simp
  then have r: "0 < ?e - now div 1000" "?e - now div 1000 \<le> 120"
    using assms(7) by (simp_all add: getExpiryTimestamp_def)
  have "media now (''/media'' @ fp) (Some (generateToken src)) (Some (numberToString ?e)) (Some uid) ?s2
      = (Granted fp uid (?e - now div 1000) ?e, ?s2)"
    using assms(4,7)
    by (simp add: media_found [OF look generateToken_nonempty numberToString_nonempty uid]
        parseInt_numberToString jsGreater_def replaceFirst_media)
  with r show ?thesis unfolding s2 by blast
qed

theorem mint_redeem_round_trip_witness:
  "\<exists>remainingSeconds.
     media 1620000060000 ''/media/videos/intro.mp4'' (Some (generateToken (\<lambda>i. 7)))
       (Some ''1620000120'') (Some ''USER_001'')
       (snd (generateSignedUrl (\<lambda>i. 7) 1620000000999 1620000001000 1620000001001
          (Some ''/videos/intro.mp4'') (Some ''USER_001'') [])) =
     (Granted ''/videos/intro.mp4'' ''USER_001'' remainingSeconds 1620000120,
      snd (generateSignedUrl (\<lambda>i. 7) 1620000000999 1620000001000 1620000001001
          (Some ''/videos/intro.mp4'') (Some ''USER_001'') [])) \<and>
     0 < remainingSeconds \<and> remainingSeconds \<le> 120"
proof -
  have h: "storeInv []" "mediaPathShape ''/videos/intro.mp4''" "requesterShape ''USER_001''"
    "validTimeValue (getExpiryTimestamp 1620000000999 * 1000)"
    "(1620000000999 :: int) \<le> 1620000060000" "(1620000001001 :: int) \<le> 1620000060000"
    "1620000060000 div 1000 < getExpiryTimestamp 1620000000999"
    by (simp_all add: storeInv_def shape_eval validTimeValue_def getExpiryTimestamp_def)
  have n: "numberToString (getExpiryTimestamp 1620000000999) = ''1620000120''"
    by (simp add: getExpiryTimestamp_def numberToString_def decimalDigits.simps digitChar_def)
  have e: "getExpiryTimestamp 1620000000999 = 1620000120"
    by (simp add: getExpiryTimestamp_def)
  from mint_redeem_round_trip [OF h, of "\<lambda>i. 7" 1620000001000]
  show ?thesis unfolding n unfolding e by simp
qed

subsection \<open>Expiry is read from the request, not from the store\<close>

text \<open>
  What the handlers do with an entry whose stored expiry has passed. The validate handler
  and the stats handler read the stored \<open>expires\<close>; the media handler reads the \<^verbatim>\<open>expires\<close>
  parameter of the request, and agrees with them when the request carries the value of the
  signed URL.
\<close>

lemma validate_expired:
  assumes "map_of store token = Some tokenData" and "token \<noteq> []"
    and "expires tokenData < now div 1000"
  shows "validateToken now (Some token) store =
     (TokenInvalid ''Token expired'', AList.delete token store)"
  using assms by (simp add: validateToken_def truthy_def)

lemma stats_counts:
  "totalTokensGenerated (stats now store) = length store"
  "activeTokens (stats now store) =
     length (filter (\<lambda>(key, val). now div 1000 \<le> expires val) store)"
proof -
  have "fold (\<lambda>(key, val) n. if expires val \<ge> ct then n + 1 else n) xs a =
      a + length (filter (\<lambda>(key, val). ct \<le> expires val) xs)"
    for ct and xs :: urlStore and a :: nat
    by (induction xs arbitrary: a) (auto split: prod.splits)
  then show "activeTokens (stats now store) =
     length (filter (\<lambda>(key, val). now div 1000 \<le> expires val) store)"
    by (simp add: stats_def)
  show "totalTokensGenerated (stats now store) = length store"
    by (simp add: stats_def)
qed

lemma redeem_expired_signed_url:
  assumes "map_of store token = Some tokenData" and "token \<noteq> []" and "uid \<noteq> []"
    and "expires tokenData < now div 1000" and "validTimeValue (expires tokenData * 1000)"
  shows "media now reqPath (Some token) (Some (numberToString (expires tokenData))) (Some uid)
       store = (TokenExpired (expires tokenData), AList.delete token store)"
  using assms(4,5)
  by (simp add: media_found [OF assms(1,2) numberToString_nonempty assms(3)]
      parseInt_numberToString jsGreater_def)

lemma redeem_deleted:
  assumes "token \<noteq> []" and "exps \<noteq> []" and "uid \<noteq> []"
  shows "media now reqPath (Some token) (Some exps) (Some uid) (AList.delete token store) =
     (TokenNotFound, AList.delete token store)"
  using assms by (simp add: media_def truthy_def delete_conv')

text \<open>
  Claim C1. The claim: a redeem at a time after the stored \<open>expiresAt\<close> is rejected as
  expired, the entry is evicted, and a later redeem finds no token. The code at a request
  whose \<^verbatim>\<open>expires\<close> parameter names a later time: the stored entry expired at second
  \<open>1620000120\<close>, the clock reads second \<open>1620000300\<close>, the redeem is granted and the entry
  stays, and a second redeem 100 seconds later is granted as well.
\<close>

theorem redeem_after_stored_expiry:
  "media 1620000300000 ''/media/videos/intro.mp4'' (Some tokenA) (Some ''1620000500'')
     (Some ''USER_001'') storeA =
   (Granted ''/videos/intro.mp4'' ''USER_001'' 200 1620000500, storeA) \<and>
   media 1620000400000 ''/media/videos/intro.mp4'' (Some tokenA) (Some ''1620000500'')
     (Some ''USER_001'')
     (snd (media 1620000300000 ''/media/videos/intro.mp4'' (Some tokenA) (Some ''1620000500'')
        (Some ''USER_001'') storeA)) =
   (Granted ''/videos/intro.mp4'' ''USER_001'' 100 1620000500, storeA)"
proof -
  have p: "parseInt ''1620000500'' = Some 1620000500" by (simp add: parseInt_eval)
  have 1: "media 1620000300000 ''/media/videos/intro.mp4'' (Some tokenA) (Some ''1620000500'')
     (Some ''USER_001'') storeA =
   (Granted ''/videos/intro.mp4'' ''USER_001'' 200 1620000500, storeA)"
    by (simp add: media_def truthy_def p jsGreater_def validTimeValue_def Let_def)
  have 2: "media 1620000400000 ''/media/videos/intro.mp4'' (Some tokenA) (Some ''1620000500'')
     (Some ''USER_001'') storeA =
   (Granted ''/videos/intro.mp4'' ''USER_001'' 100 1620000500, storeA)"
    by (simp add: media_def truthy_def p jsGreater_def validTimeValue_def Let_def)
  show ?thesis unfolding 1 using 1 2 by simp
qed

theorem redeem_after_stored_expiry_witness:
  "statusCode (fst (media 1620000300000 ''/media/videos/intro.mp4'' (Some tokenA)
     (Some ''1620000500'') (Some ''USER_001'') storeA)) = 200 \<and>
   snd (media 1620000300000 ''/media/videos/intro.mp4'' (Some tokenA)
     (Some ''1620000500'') (Some ''USER_001'') storeA) = storeA"
  using redeem_after_stored_expiry by (simp add: statusCode_def)

text \<open>
  Claim C5. The claim: every read treats an entry whose stored expiry has passed as absent
  or inactive. The code on one such entry: the validate handler answers that the token
  has expired, the stats handler counts no active token, and the media handler grants
  access.
\<close>

theorem expired_entry_read_by_three_handlers:
  "fst (validateToken 1620000300000 (Some tokenA) storeA) = TokenInvalid ''Token expired'' \<and>
   activeTokens (stats 1620000300000 storeA) = 0 \<and>
   fst (media 1620000300000 ''/media/videos/intro.mp4'' (Some tokenA) (Some ''1620000500'')
     (Some ''USER_001'') storeA) =
     Granted ''/videos/intro.mp4'' ''USER_001'' 200 1620000500"
proof -
  have p: "parseInt ''1620000500'' = Some 1620000500" by (simp add: parseInt_eval)
  show ?thesis
    by (simp add: validateToken_def stats_def media_def truthy_def p jsGreater_def
        validTimeValue_def Let_def)
qed

theorem expired_entry_read_by_three_handlers_witness:
  "statusCode (fst (media 1620000300000 ''/media/videos/intro.mp4'' (Some tokenA)
     (Some ''1620000500'') (Some ''USER_001'') storeA)) = 200"
  using expired_entry_read_by_three_handlers by (simp add: statusCode_def)

subsection \<open>Statistics\<close>

lemma token_1_2: "generateToken (\<lambda>i. 1) \<noteq> generateToken (\<lambda>i. 2)"
proof
  assume "generateToken (\<lambda>i. 1) = generateToken (\<lambda>i. 2)"
  then have "(\<lambda>i. 1 :: 8 word) 0 = (\<lambda>i. 2) 0" by (rule generateToken_inj [where i = 0]) simp
  then show False by simp
qed

text \<open>
  Claim C4. The claim: the total the stats handler reports counts every insertion since
  the process started and never goes down. The code after two mints 200 seconds apart: the
  clean-up of the second mint has deleted the first entry, and the stats handler reports a
  total of 1 after 2 insertions. (The active count is as claimed: \<open>stats_counts\<close>.)
\<close>

theorem stats_total_after_cleanup:
  "totalTokensGenerated (stats 1620000000000
     (snd (generateSignedUrl (\<lambda>i. 1) 1620000000000 1620000000000 1620000000000
        (Some ''/videos/intro.mp4'') (Some ''USER_001'') []))) = 1 \<and>
   totalTokensGenerated (stats 1620000200000
     (snd (generateSignedUrl (\<lambda>i. 2) 1620000200000 1620000200000 1620000200000
        (Some ''/videos/intro.mp4'') (Some ''USER_001'')
        (snd (generateSignedUrl (\<lambda>i. 1) 1620000000000 1620000000000 1620000000000
           (Some ''/videos/intro.mp4'') (Some ''USER_001'') []))))) = 1"
proof -
  have h: "mediaPathShape ''/videos/intro.mp4''" "requesterShape ''USER_001''"
    by (simp_all add: shape_eval)
  show ?thesis
    using token_1_2
    by (simp add: generate_valid [OF h] cleanupExpired_def getExpiryTimestamp_def stats_def)
qed

theorem stats_total_after_cleanup_witness:
  "totalTokensGenerated (stats 1620000200000
     (snd (generateSignedUrl (\<lambda>i. 2) 1620000200000 1620000200000 1620000200000
        (Some ''/videos/intro.mp4'') (Some ''USER_001'')
        (snd (generateSignedUrl (\<lambda>i. 1) 1620000000000 1620000000000 1620000000000
           (Some ''/videos/intro.mp4'') (Some ''USER_001'') []))))) < 2"
  using stats_total_after_cleanup by simp

end
